theory Spec2Isabelle
  imports Main "HOL-Library.Word"
begin

section \<open>hydra\_core: nodes, publishers and the graph container\<close>

text \<open>
  Python objects are compared and hashed by identity unless a class says otherwise, and
  none of hydra's classes does. An object is therefore modelled together with its
  identity, a natural number. The interpreter hands out identities from a counter:
  \<open>py_heap\<close> is the next identity not yet in use.
\<close>

type_synonym obj_id = nat

type_synonym py_heap = nat

definition new_object :: "py_heap \<Rightarrow> obj_id \<times> py_heap" where
  "new_object h = (h, Suc h)"

text \<open>
  A node: its identity, its \<open>name\<close> attribute, and whether its class derives from
  \<open>threading.Thread\<close> (what \<open>isinstance(node, threading.Thread)\<close> answers).
\<close>

record node =
  obj_id :: obj_id
  name :: string
  is_thread :: bool

subsection \<open>Exceptions\<close>

text \<open>
  The exceptions the model tells apart. \<open>SocketTimeoutExc\<close> is \<open>socket.timeout\<close> and
  \<open>ConnectionErrorExc\<close> is \<open>ConnectionError\<close> with its subclasses, the two that
  \<open>get_next_item\<close> catches by name; \<open>OSError\<close> is any other \<open>OSError\<close>.
\<close>

datatype exn =
    OSError
  | AttributeError
  | SocketTimeoutExc
  | ConnectionErrorExc
  | NotImplementedError

subsection \<open>Publisher\<close>

text \<open>
  \<open>Publisher.subscribers\<close> is a Python set of subscriber objects. A call
  \<open>subscriber.notify(publisher, item)\<close> is recorded as \<open>Notify subscriber publisher item\<close>.
  What a subscriber's \<open>notify\<close> does is up to its class: it returns, or it raises.
  A reaction says which, for each subscriber and item: \<open>None\<close> when the call returns,
  \<open>Some e\<close> when it raises \<open>e\<close>.
\<close>

type_synonym 'a reaction = "obj_id \<Rightarrow> 'a \<Rightarrow> exn option"

text \<open>
  Two reactions: every \<open>notify\<close> returns; and every subscriber is of a class that
  keeps \<open>Subscriber.notify\<close>, which raises \<open>NotImplementedError\<close> (a plain \<open>Sink\<close>).
\<close>

definition all_return :: "'a reaction" where
  "all_return subscriber item = None"

definition plain_sinks :: "'a reaction" where
  "plain_sinks subscriber item = Some NotImplementedError"

record publisher =
  pub_id :: obj_id
  subscribers :: "obj_id set"

datatype 'a notification = Notify (callee: obj_id) (caller: obj_id) (payload: 'a)

definition publisher_init :: "obj_id \<Rightarrow> publisher" where
  "publisher_init i = \<lparr>pub_id = i, subscribers = {}\<rparr>"

definition add_subscriber :: "publisher \<Rightarrow> obj_id \<Rightarrow> publisher" where
  "add_subscriber p subscriber = p\<lparr>subscribers := insert subscriber (subscribers p)\<rparr>"

text \<open>
  A \<open>for\<close> loop over a Python set visits every member once, in an order the language
  leaves open. The model visits the members by ascending identity; the theorems
  below speak of how often a subscriber is called, not of the order.
\<close>

definition set_iter :: "obj_id set \<Rightarrow> obj_id list" where
  "set_iter S = sorted_list_of_set S"

text \<open>
  \<open>Publisher.notify_all\<close>: the calls it makes, in order, and the exception that
  leaves it, if any. The loop has no \<open>try\<close>: the first \<open>notify\<close> that raises ends
  it, and the subscribers after that one are not called.
\<close>

fun notify_each :: "'a reaction \<Rightarrow> obj_id \<Rightarrow> 'a \<Rightarrow> obj_id list \<Rightarrow> 'a notification list \<times> exn option" where
  "notify_each react pid item [] = ([], None)"
| "notify_each react pid item (subscriber # rest) =
     (case react subscriber item of
        Some e \<Rightarrow> ([Notify subscriber pid item], Some e)
      | None \<Rightarrow>
          (Notify subscriber pid item # fst (notify_each react pid item rest),
           snd (notify_each react pid item rest)))"

definition notify_all :: "'a reaction \<Rightarrow> publisher \<Rightarrow> 'a \<Rightarrow> 'a notification list \<times> exn option" where
  "notify_all react p item = notify_each react (pub_id p) item (set_iter (subscribers p))"

text \<open>A sequence of \<open>add_subscriber\<close> calls on a fresh publisher, repeats allowed.\<close>

definition subscribe_all :: "publisher \<Rightarrow> obj_id list \<Rightarrow> publisher" where
  "subscribe_all p subs = fold (\<lambda>subscriber q. add_subscriber q subscriber) subs p"

subsection \<open>Graph\<close>

record graph =
  graph_name :: string
  nodes :: "node set"
  executable_nodes :: "node list"

datatype error =
    DuplicateNodeNameError node graph
  | ValueError

text \<open>Calls the graph makes on its thread-owning nodes, in the order it makes them.\<close>

datatype call = StartCall node | StopCall node | JoinCall node

definition graph_init :: "string \<Rightarrow> graph" where
  "graph_init n = \<lparr>graph_name = n, nodes = {}, executable_nodes = []\<rparr>"

definition has_node_with_name :: "graph \<Rightarrow> string \<Rightarrow> bool" where
  "has_node_with_name g node_name = (\<exists>n \<in> nodes g. name n = node_name)"

text \<open>
  \<open>Graph.add\<close>. The result is the graph after the call and the exception raised, if
  any.
\<close>

definition graph_add :: "graph \<Rightarrow> node \<Rightarrow> graph \<times> error option" where
  "graph_add g n =
     (if \<not> has_node_with_name g (name n) then
        (let g1 = g\<lparr>nodes := insert n (nodes g)\<rparr>;
             g2 = (if is_thread n
                   then g1\<lparr>executable_nodes := executable_nodes g1 @ [n]\<rparr>
                   else g1)
         in (g2, None))
      else (g, Some (DuplicateNodeNameError n g)))"

text \<open>
  \<open>Graph.remove\<close>. The test of the source is \<open>node is threading.Thread()\<close>: it
  constructs a new \<open>Thread\<close> object and compares the identity of \<open>node\<close> with it.
  \<open>list.remove\<close> raises \<open>ValueError\<close> when the element is absent.
\<close>

definition graph_remove :: "py_heap \<Rightarrow> graph \<Rightarrow> node \<Rightarrow> py_heap \<times> graph \<times> error option" where
  "graph_remove h g n =
     (if n \<in> nodes g then
        (let (t, h1) = new_object h in
         if obj_id n = t then
           (if n \<in> set (executable_nodes g)
            then (h1, g\<lparr>executable_nodes := remove1 n (executable_nodes g),
                         nodes := nodes g - {n}\<rparr>, None)
            else (h1, g, Some ValueError))
         else (h1, g\<lparr>nodes := nodes g - {n}\<rparr>, None))
      else (h, g, None))"

definition graph_clear :: "graph \<Rightarrow> graph" where
  "graph_clear g = g\<lparr>nodes := {}, executable_nodes := []\<rparr>"

definition graph_execute :: "graph \<Rightarrow> call list \<Rightarrow> call list" where
  "graph_execute g tr = fold (\<lambda>n t. t @ [StartCall n]) (executable_nodes g) tr"

text \<open>
  \<open>reversed(xs)\<close> is an iterator, not a list. An iterator is modelled by the items
  it has still to yield. A \<open>for\<close> loop over it runs its body on each of them and
  leaves the iterator exhausted; a second loop over the same iterator finds nothing.
\<close>

type_synonym 'a iterator = "'a list"

definition reversed :: "'a list \<Rightarrow> 'a iterator" where
  "reversed xs = rev xs"

definition for_each :: "'a iterator \<Rightarrow> ('a \<Rightarrow> 's \<Rightarrow> 's) \<Rightarrow> 's \<Rightarrow> 's \<times> 'a iterator" where
  "for_each it body s = (fold body it s, [])"

definition graph_stop :: "graph \<Rightarrow> call list \<Rightarrow> call list" where
  "graph_stop g tr =
     (let nodes0 = reversed (executable_nodes g);
          (tr1, nodes1) = for_each nodes0 (\<lambda>n t. t @ [StopCall n]) tr;
          (tr2, nodes2) = for_each nodes1 (\<lambda>n t. t @ [JoinCall n]) tr1
      in tr2)"

text \<open>The invariant of the graph: every executable node is a registered node.\<close>

definition graph_inv :: "graph \<Rightarrow> bool" where
  "graph_inv g = (set (executable_nodes g) \<subseteq> nodes g)"

text \<open>Three thread-owning nodes and a graph they are added to, in the order A, B, C.\<close>

definition node_A :: node where
  "node_A = \<lparr>obj_id = 0, name = ''A'', is_thread = True\<rparr>"

definition node_B :: node where
  "node_B = \<lparr>obj_id = 1, name = ''B'', is_thread = True\<rparr>"

definition node_C :: node where
  "node_C = \<lparr>obj_id = 2, name = ''C'', is_thread = True\<rparr>"

definition node_A2 :: node where
  "node_A2 = \<lparr>obj_id = 3, name = ''A'', is_thread = False\<rparr>"

definition graph_A :: graph where
  "graph_A = fst (graph_add (graph_init ''g'') node_A)"

definition graph_ABC :: graph where
  "graph_ABC = fst (graph_add (fst (graph_add graph_A node_B)) node_C)"

section \<open>hydra\_common: ActiveQueueNode\<close>

text \<open>
  The node's queue, its stop flag, and the items handed to \<open>notify_all\<close> so far.
  \<open>exited\<close> records that the thread's loop has ended: it has seen the flag, or an
  exception has left \<open>run\<close>, which \<open>aq_raised\<close> then holds.
\<close>

record 'a active_queue =
  queue :: "'a list"
  aq_stopped :: bool
  exited :: bool
  published :: "'a list"
  aq_raised :: "exn option"

definition aq_init :: "'a active_queue" where
  "aq_init = \<lparr>queue = [], aq_stopped = False, exited = False, published = [], aq_raised = None\<rparr>"

definition aq_notify :: "'a active_queue \<Rightarrow> 'a \<Rightarrow> 'a active_queue" where
  "aq_notify s item = s\<lparr>queue := queue s @ [item]\<rparr>"

definition aq_stop :: "'a active_queue \<Rightarrow> 'a active_queue" where
  "aq_stop s = s\<lparr>aq_stopped := True\<rparr>"

text \<open>
  One trip of the thread through \<open>while not self.stopped.is_set()\<close>: the guard, then
  \<open>queue.get(timeout=1.0)\<close>, which returns the oldest item or raises \<open>Empty\<close>, then
  \<open>notify_all(item)\<close>. The \<open>try\<close> catches \<open>Empty\<close> only: an exception out of
  \<open>notify_all\<close> leaves \<open>run\<close> and ends the thread. The node is a publisher \<open>p\<close>
  whose subscribers react as \<open>react\<close> says.
\<close>

definition aq_run_iteration :: "'a reaction \<Rightarrow> publisher \<Rightarrow> 'a active_queue \<Rightarrow> 'a active_queue" where
  "aq_run_iteration react p s =
     (if exited s then s
      else if aq_stopped s then s\<lparr>exited := True\<rparr>
      else (case queue s of
              [] \<Rightarrow> s
            | item # rest \<Rightarrow>
                (case snd (notify_all react p item) of
                   None \<Rightarrow> s\<lparr>queue := rest, published := published s @ [item]\<rparr>
                 | Some e \<Rightarrow>
                     s\<lparr>queue := rest, published := published s @ [item],
                       exited := True, aq_raised := Some e\<rparr>)))"

text \<open>
  The threads of the program interleave. A schedule lists what happens in order: a
  publisher's thread calls \<open>notify\<close>, some thread calls \<open>stop\<close>, or the node's own
  thread makes one trip through its loop.
\<close>

datatype 'a aq_event = Put 'a | StopReq | Iter

fun aq_step :: "'a reaction \<Rightarrow> publisher \<Rightarrow> 'a active_queue \<Rightarrow> 'a aq_event \<Rightarrow> 'a active_queue" where
  "aq_step react p s (Put item) = aq_notify s item"
| "aq_step react p s StopReq = aq_stop s"
| "aq_step react p s Iter = aq_run_iteration react p s"

definition aq_exec :: "'a reaction \<Rightarrow> publisher \<Rightarrow> 'a aq_event list \<Rightarrow> 'a active_queue \<Rightarrow> 'a active_queue" where
  "aq_exec react p evs s = foldl (aq_step react p) s evs"

text \<open>A queue node that publishes to the subscribers 5 and 7.\<close>

definition queue_pub :: publisher where
  "queue_pub = \<lparr>pub_id = 1, subscribers = {5, 7}\<rparr>"

fun enqueued :: "'a aq_event list \<Rightarrow> 'a list" where
  "enqueued [] = []"
| "enqueued (Put item # evs) = item # enqueued evs"
| "enqueued (StopReq # evs) = enqueued evs"
| "enqueued (Iter # evs) = enqueued evs"

section \<open>hydra\_net: TcpSourceSink\<close>

subsection \<open>Sockets and the network\<close>

text \<open>
  A byte string is a list of bytes. What a connected socket will see from its peer is a
  list of events, oldest first: a segment of bytes arrives, a timeout interval passes
  with nothing arriving, the peer closes, or the connection breaks.
\<close>

type_synonym bytes = "8 word list"

datatype rx_event = Data bytes | Idle | Eof | Reset

text \<open>
  A socket: whether it is connected to a peer (a socket made by \<open>socket.socket()\<close>
  is not, until \<open>connect\<close> succeeds; one returned by \<open>accept\<close> is), what is still to
  come from the peer, the timeout set by \<open>settimeout\<close> (\<open>None\<close> is blocking mode),
  the bytes \<open>send\<close> has taken so far, and what the \<open>send\<close> calls to come will
  do (when \<open>tx\<close> is empty, each takes the whole item).
\<close>

text \<open>
  What one \<open>send\<close> on a connected socket does: it takes at most so many bytes of the
  item and returns their number, or it raises because the connection is broken, or
  because of a timeout.
\<close>

datatype tx_event = Takes nat | Breaks | Stalls

record socket =
  is_connected :: bool
  rx :: "rx_event list"
  timeout :: "nat option"
  sent :: bytes
  tx :: "tx_event list"

datatype recv_result = Received bytes | SocketTimeout | ConnectionError | Blocked | NotConnected

text \<open>
  \<open>sock.recv(n)\<close>. It returns at most \<open>n\<close> of the bytes that have arrived and leaves
  the others for the next call; it returns the empty byte string when the peer has
  closed; it raises \<open>socket.timeout\<close> when the socket has a timeout and nothing arrives
  in time; it raises \<open>ConnectionError\<close> when the connection breaks. In blocking mode it
  waits for as long as it takes: \<open>Blocked\<close> says that nothing will ever arrive, so
  the call does not return. On a socket that is not connected, \<open>recv\<close> and \<open>send\<close>
  raise an \<open>OSError\<close>.
\<close>

fun recv_from :: "nat option \<Rightarrow> nat \<Rightarrow> rx_event list \<Rightarrow> recv_result \<times> rx_event list" where
  "recv_from t n [] = (if t = None then Blocked else SocketTimeout, [])"
| "recv_from t n (Data bs # rest) =
     (if bs = [] then recv_from t n rest
      else (Received (take n bs), if drop n bs = [] then rest else Data (drop n bs) # rest))"
| "recv_from t n (Idle # rest) =
     (if t = None then recv_from t n rest else (SocketTimeout, rest))"
| "recv_from t n (Eof # rest) = (Received [], Eof # rest)"
| "recv_from t n (Reset # rest) = (ConnectionError, rest)"

definition recv :: "socket \<Rightarrow> int \<Rightarrow> recv_result \<times> socket" where
  "recv k n =
     (if is_connected k
      then (let (r, rest) = recv_from (timeout k) (nat n) (rx k) in (r, k\<lparr>rx := rest\<rparr>))
      else (NotConnected, k))"

definition settimeout :: "socket \<Rightarrow> nat option \<Rightarrow> socket" where
  "settimeout k t = k\<lparr>timeout := t\<rparr>"

text \<open>
  \<open>sock.send(item)\<close>: the exception it raises, or the socket after the call. It may
  take fewer bytes than the item has; the node does not look at the number returned.
\<close>

definition send :: "socket \<Rightarrow> bytes \<Rightarrow> exn + socket" where
  "send k item =
     (if \<not> is_connected k then Inl OSError
      else (case tx k of
              [] \<Rightarrow> Inr (k\<lparr>sent := sent k @ item\<rparr>)
            | Takes n # later \<Rightarrow> Inr (k\<lparr>sent := sent k @ take n item, tx := later\<rparr>)
            | Breaks # later \<Rightarrow> Inl ConnectionErrorExc
            | Stalls # later \<Rightarrow> Inl SocketTimeoutExc))"

definition new_socket :: socket where
  "new_socket = \<lparr>is_connected = False, rx = [], timeout = None, sent = [], tx = []\<rparr>"

text \<open>The socket of a connection on which the peer will send \<open>stream\<close>.\<close>

definition connect_to :: "socket \<Rightarrow> rx_event list \<Rightarrow> socket" where
  "connect_to k stream = k\<lparr>is_connected := True, rx := stream\<rparr>"

text \<open>
  What the network answers to one \<open>accept()\<close> or \<open>connect()\<close>: a connection (with
  what the peer will send on it), a timeout, or another \<open>OSError\<close>.
\<close>

datatype attempt = Established "rx_event list" | TimedOut | OsError

record listener =
  l_timeout :: "nat option"
  l_backlog :: nat

subsection \<open>The node\<close>

text \<open>
  The header strategy (\<open>BaseTcpHeader\<close>: a header length and \<open>get_message_size\<close>), the
  two flags of the constructor, and the node as a publisher: its subscribers, wired
  before the graph runs, and how their \<open>notify\<close> reacts.
\<close>

record tcp_config =
  header_length :: int
  get_message_size :: "bytes \<Rightarrow> int"
  is_server :: bool
  keep_header_data :: bool
  node_pub :: publisher
  reaction :: "bytes reaction"

text \<open>
  The node's state. \<open>stopped\<close> is the stop flag as the node's thread will see it:
  \<open>None\<close> when no thread ever calls \<open>stop()\<close>, \<open>Some n\<close> when the next \<open>n\<close> polls of
  the flag still find it clear and every later one finds it set (another thread sets
  it in between; it is never cleared). \<open>delivered\<close> lists the items passed to
  \<open>notify_all\<close>. \<open>net\<close> lists the answers of the network to the \<open>accept\<close> and
  \<open>connect\<close> calls to come; when it is empty, each further call times out.
\<close>

record tcp_node =
  sock :: "socket option"
  server_sock :: "listener option"
  stopped :: "nat option"
  delivered :: "bytes list"
  net :: "attempt list"

definition sock_timeout :: nat where
  "sock_timeout = 1"

definition tcp_init :: "attempt list \<Rightarrow> nat option \<Rightarrow> tcp_node" where
  "tcp_init answers flag =
     \<lparr>sock = None, server_sock = None, stopped = flag, delivered = [], net = answers\<rparr>"

text \<open>
  How a call ends: it returns, an exception leaves it, it blocks for ever, or the
  model's fuel ran out before it ended.
\<close>

datatype 'a outcome = Return 'a | Raise exn | Hang | OutOfFuel

definition is_set :: "tcp_node \<Rightarrow> bool \<times> tcp_node" where
  "is_set s =
     (case stopped s of
        None \<Rightarrow> (False, s)
      | Some 0 \<Rightarrow> (True, s)
      | Some (Suc n) \<Rightarrow> (False, s\<lparr>stopped := Some n\<rparr>))"

definition tcp_stop :: "tcp_node \<Rightarrow> tcp_node" where
  "tcp_stop s = s\<lparr>stopped := Some 0\<rparr>"

text \<open>
  \<open>clear_for n s\<close>: the next \<open>n\<close> polls of the stop flag find it clear.
  \<open>after_polls n s\<close>: the node after \<open>n\<close> such polls.
\<close>

definition clear_for :: "nat \<Rightarrow> tcp_node \<Rightarrow> bool" where
  "clear_for n s = (case stopped s of None \<Rightarrow> True | Some m \<Rightarrow> n \<le> m)"

definition after_polls :: "nat \<Rightarrow> tcp_node \<Rightarrow> tcp_node" where
  "after_polls n s = s\<lparr>stopped := map_option (\<lambda>m. m - n) (stopped s)\<rparr>"

text \<open>
  A stretch of the incoming stream that carries a payload and ends with its last
  byte: segments of bytes with pauses between them (a slow sender), the last event
  a non-empty segment. \<open>stream_bytes\<close> are the bytes it carries and \<open>reads\<close> the
  number of non-empty segments, one \<open>recv\<close> of the payload loop for each.
\<close>

fun payload_events :: "rx_event list \<Rightarrow> bool" where
  "payload_events [] = True"
| "payload_events [Data bs] = (bs \<noteq> [])"
| "payload_events (Data bs # e # later) = payload_events (e # later)"
| "payload_events (Idle # e # later) = payload_events (e # later)"
| "payload_events (e # later) = False"

fun stream_bytes :: "rx_event list \<Rightarrow> bytes" where
  "stream_bytes [] = []"
| "stream_bytes (Data bs # later) = bs @ stream_bytes later"
| "stream_bytes (e # later) = stream_bytes later"

fun reads :: "rx_event list \<Rightarrow> nat" where
  "reads [] = 0"
| "reads (Data bs # later) = (if bs = [] then reads later else Suc (reads later))"
| "reads (e # later) = reads later"

text \<open>The node holds a connected socket.\<close>

definition linked :: "tcp_node \<Rightarrow> bool" where
  "linked s = (case sock s of None \<Rightarrow> False | Some k \<Rightarrow> is_connected k)"

definition next_attempt :: "tcp_node \<Rightarrow> attempt \<times> tcp_node" where
  "next_attempt s = (case net s of [] \<Rightarrow> (TimedOut, s) | a # rest \<Rightarrow> (a, s\<lparr>net := rest\<rparr>))"

subsection \<open>get\_next\_item\<close>

text \<open>
  The loop that reads the payload. It ends when the guard fails (\<open>LoopExit\<close>), when
  \<open>recv\<close> returns nothing (\<open>LoopEof\<close>), or when \<open>recv\<close> raises or blocks for ever.
  \<open>get_next_item\<close> catches \<open>socket.timeout\<close> and \<open>ConnectionError\<close>; any other
  \<open>OSError\<close> leaves it.
  Python's \<open>and\<close> polls the stop flag only when bytes are still missing.
\<close>

datatype payload_result =
    LoopExit tcp_node socket int bytes
  | LoopEof tcp_node socket
  | LoopTimeout tcp_node socket
  | LoopConnErr tcp_node socket
  | LoopBlocked
  | LoopOSError

function receive_payload :: "tcp_node \<Rightarrow> socket \<Rightarrow> int \<Rightarrow> int \<Rightarrow> bytes \<Rightarrow> payload_result" where
  "receive_payload s k bytes_to_read bytes_read data =
     (if bytes_read < bytes_to_read then
        (if fst (is_set s) then LoopExit (snd (is_set s)) k bytes_read data
         else
           (case fst (recv k (bytes_to_read - bytes_read)) of
              Received tmp_data \<Rightarrow>
                (if tmp_data = [] then LoopEof (snd (is_set s)) (snd (recv k (bytes_to_read - bytes_read)))
                 else receive_payload (snd (is_set s)) (snd (recv k (bytes_to_read - bytes_read)))
                        bytes_to_read (bytes_read + int (length tmp_data)) (data @ tmp_data))
            | SocketTimeout \<Rightarrow> LoopTimeout (snd (is_set s)) (snd (recv k (bytes_to_read - bytes_read)))
            | ConnectionError \<Rightarrow> LoopConnErr (snd (is_set s)) (snd (recv k (bytes_to_read - bytes_read)))
            | Blocked \<Rightarrow> LoopBlocked
            | NotConnected \<Rightarrow> LoopOSError))
      else LoopExit s k bytes_read data)"
  by pat_completeness auto
termination
  by (relation "measure (\<lambda>(s, k, bytes_to_read, bytes_read, data). nat (bytes_to_read - bytes_read))")
    auto

declare receive_payload.simps [simp del]

definition close_sock :: "tcp_node \<Rightarrow> tcp_node" where
  "close_sock s = s\<lparr>sock := None\<rparr>"

text \<open>
  The \<open>except\<close> clauses of \<open>get_next_item\<close>, for an exception raised inside its
  \<open>try\<close> while the node's socket is \<open>k\<close>.
\<close>

definition handle_exn :: "exn \<Rightarrow> tcp_node \<Rightarrow> socket \<Rightarrow> (bool \<times> tcp_node) outcome" where
  "handle_exn e s k =
     (case e of
        SocketTimeoutExc \<Rightarrow> Return (True, s\<lparr>sock := Some k\<rparr>)
      | ConnectionErrorExc \<Rightarrow> Return (False, close_sock s)
      | _ \<Rightarrow> Raise e)"

text \<open>
  The part of \<open>get_next_item\<close> after the header: the payload length, the payload loop,
  and the delivery. \<open>k\<close> is the node's socket, written back to \<open>self.sock\<close> at the end.
  \<open>notify_all(data)\<close> stands inside the \<open>try\<close>: an exception of a subscriber meets
  the \<open>except\<close> clauses of the node.
\<close>

definition read_message :: "tcp_config \<Rightarrow> tcp_node \<Rightarrow> socket \<Rightarrow> bytes \<Rightarrow> (bool \<times> tcp_node) outcome" where
  "read_message c s k header_bytes =
     (let bytes_to_read = get_message_size c header_bytes;
          k1 = settimeout k None
      in case receive_payload s k1 bytes_to_read 0 [] of
           LoopBlocked \<Rightarrow> Hang
         | LoopOSError \<Rightarrow> Raise OSError
         | LoopEof s1 k2 \<Rightarrow> Return (False, close_sock s1)
         | LoopConnErr s1 k2 \<Rightarrow> Return (False, close_sock s1)
         | LoopTimeout s1 k2 \<Rightarrow> Return (True, s1\<lparr>sock := Some k2\<rparr>)
         | LoopExit s1 k2 bytes_read data \<Rightarrow>
             (if bytes_read = bytes_to_read then
                (let data1 = (if header_length c > 0 \<and> keep_header_data c
                              then header_bytes @ data else data);
                     s2 = s1\<lparr>delivered := delivered s1 @ [data1]\<rparr>
                 in case snd (notify_all (reaction c) (node_pub c) data1) of
                      None \<Rightarrow> Return (True, s2\<lparr>sock := Some (settimeout k2 (Some sock_timeout))\<rparr>)
                    | Some e \<Rightarrow> handle_exn e s2 k2)
              else Return (True, s1\<lparr>sock := Some (settimeout k2 (Some sock_timeout))\<rparr>)))"

definition tcp_get_next_item :: "tcp_config \<Rightarrow> tcp_node \<Rightarrow> (bool \<times> tcp_node) outcome" where
  "tcp_get_next_item c s =
     (case sock s of
        None \<Rightarrow> Raise AttributeError
      | Some k0 \<Rightarrow>
          (let k1 = settimeout k0 (Some sock_timeout) in
           if header_length c > 0 then
             (case recv k1 (header_length c) of
                (Received header_bytes, k2) \<Rightarrow>
                  (if header_bytes = [] then Return (False, close_sock s)
                   else read_message c s k2 header_bytes)
              | (SocketTimeout, k2) \<Rightarrow> Return (True, s\<lparr>sock := Some k2\<rparr>)
              | (ConnectionError, k2) \<Rightarrow> Return (False, close_sock s)
              | (Blocked, k2) \<Rightarrow> Hang
              | (NotConnected, k2) \<Rightarrow> Raise OSError)
           else read_message c s k1 []))"

subsection \<open>initialize and run\<close>

text \<open>
  The loops of \<open>initialize\<close> and \<open>run\<close> go on until the stop flag is seen, which may
  be never; they take fuel, one unit for each trip.
\<close>

fun initialize_accept :: "nat \<Rightarrow> tcp_node \<Rightarrow> tcp_node outcome" where
  "initialize_accept 0 s = OutOfFuel"
| "initialize_accept (Suc fuel) s =
     (if fst (is_set s) then Return (snd (is_set s))
      else (case server_sock s of
              None \<Rightarrow> Raise AttributeError
            | Some l \<Rightarrow>
               (case next_attempt (snd (is_set s)) of
                  (Established stream, s1) \<Rightarrow> Return (s1\<lparr>sock := Some (connect_to new_socket stream)\<rparr>)
                | (TimedOut, s1) \<Rightarrow> initialize_accept fuel s1
                | (OsError, s1) \<Rightarrow> initialize_accept fuel s1)))"

fun initialize_connect :: "nat \<Rightarrow> tcp_node \<Rightarrow> tcp_node outcome" where
  "initialize_connect 0 s = OutOfFuel"
| "initialize_connect (Suc fuel) s =
     (if fst (is_set s) then Return (snd (is_set s))
      else (case sock s of
              None \<Rightarrow> Raise AttributeError
            | Some k \<Rightarrow>
               (case next_attempt (snd (is_set s)) of
                  (Established stream, s1) \<Rightarrow> Return (s1\<lparr>sock := Some (connect_to k stream)\<rparr>)
                | (TimedOut, s1) \<Rightarrow> initialize_connect fuel s1
                | (OsError, s1) \<Rightarrow> initialize_connect fuel s1)))"

definition tcp_initialize :: "tcp_config \<Rightarrow> nat \<Rightarrow> tcp_node \<Rightarrow> tcp_node outcome" where
  "tcp_initialize c fuel s =
     (if is_server c then
        initialize_accept fuel
          (s\<lparr>server_sock := Some \<lparr>l_timeout = Some sock_timeout, l_backlog = 1\<rparr>\<rparr>)
      else
        initialize_connect fuel
          (s\<lparr>sock := Some (settimeout new_socket (Some sock_timeout))\<rparr>))"

text \<open>
  The accept loop inside \<open>run\<close>. Unlike the one of \<open>initialize\<close> it has no
  \<open>except OSError\<close>: such an exception leaves the loop, and \<open>run\<close> with it.
\<close>

fun run_accept :: "nat \<Rightarrow> tcp_node \<Rightarrow> tcp_node outcome" where
  "run_accept 0 s = OutOfFuel"
| "run_accept (Suc fuel) s =
     (if fst (is_set s) then Return (snd (is_set s))
      else (case server_sock s of
              None \<Rightarrow> Raise AttributeError
            | Some l \<Rightarrow>
               (case next_attempt (snd (is_set s)) of
                  (Established stream, s1) \<Rightarrow> Return (s1\<lparr>sock := Some (connect_to new_socket stream)\<rparr>)
                | (TimedOut, s1) \<Rightarrow> run_accept fuel s1
                | (OsError, s1) \<Rightarrow> Raise OSError)))"

definition recover :: "tcp_config \<Rightarrow> nat \<Rightarrow> tcp_node \<Rightarrow> tcp_node outcome" where
  "recover c fuel s = (if \<not> is_server c then tcp_initialize c fuel s else run_accept fuel s)"

fun run_loop :: "tcp_config \<Rightarrow> nat \<Rightarrow> tcp_node \<Rightarrow> tcp_node outcome" where
  "run_loop c 0 s = OutOfFuel"
| "run_loop c (Suc fuel) s =
     (if fst (is_set s) then Return (snd (is_set s))
      else (case tcp_get_next_item c (snd (is_set s)) of
              Return r \<Rightarrow>
                (if fst r then run_loop c fuel (snd r)
                 else (case recover c fuel (snd r) of
                         Return s1 \<Rightarrow> run_loop c fuel s1
                       | Raise e \<Rightarrow> Raise e
                       | Hang \<Rightarrow> Hang
                       | OutOfFuel \<Rightarrow> OutOfFuel))
            | Raise e \<Rightarrow> Raise e
            | Hang \<Rightarrow> Hang
            | OutOfFuel \<Rightarrow> OutOfFuel))"

definition tcp_run :: "tcp_config \<Rightarrow> nat \<Rightarrow> tcp_node \<Rightarrow> tcp_node outcome" where
  "tcp_run c fuel s =
     (case tcp_initialize c fuel s of
        Return s1 \<Rightarrow> run_loop c fuel s1
      | Raise e \<Rightarrow> Raise e
      | Hang \<Rightarrow> Hang
      | OutOfFuel \<Rightarrow> OutOfFuel)"

subsection \<open>notify\<close>

definition tcp_notify :: "tcp_node \<Rightarrow> obj_id \<Rightarrow> bytes \<Rightarrow> tcp_node outcome" where
  "tcp_notify s publisher item =
     (case sock s of
        None \<Rightarrow> Return s
      | Some k \<Rightarrow>
          (case send k item of
             Inl e \<Rightarrow> Raise e
           | Inr k1 \<Rightarrow> Return (s\<lparr>sock := Some k1\<rparr>)))"

subsection \<open>A header strategy and a connected node, for concrete runs\<close>

text \<open>
  A two-byte header that holds the payload length as a big-endian unsigned number
  (\<open>int.from_bytes(header_bytes, 'big')\<close>), and a node whose socket is connected to a
  peer that sends \<open>stream\<close>.
\<close>

definition be16 :: "bytes \<Rightarrow> int" where
  "be16 header_bytes = foldl (\<lambda>a b. 256 * a + uint b) 0 header_bytes"

text \<open>
  The node publishes to one subscriber. In \<open>be16_config\<close> its \<open>notify\<close> returns; in
  \<open>be16_config_to\<close> it reacts as given.
\<close>

definition be16_config_to :: "bytes reaction \<Rightarrow> bool \<Rightarrow> bool \<Rightarrow> tcp_config" where
  "be16_config_to react server keep =
     \<lparr>header_length = 2, get_message_size = be16, is_server = server, keep_header_data = keep,
      node_pub = \<lparr>pub_id = 1, subscribers = {9}\<rparr>, reaction = react\<rparr>"

definition be16_config :: "bool \<Rightarrow> bool \<Rightarrow> tcp_config" where
  "be16_config server keep = be16_config_to all_return server keep"

text \<open>A subscriber whose \<open>notify\<close> raises a \<open>ConnectionError\<close>, as \<open>send\<close> on a broken
  connection does.\<close>

definition broken_pipe :: "bytes reaction" where
  "broken_pipe subscriber item = Some ConnectionErrorExc"

definition connected :: "rx_event list \<Rightarrow> nat option \<Rightarrow> tcp_node" where
  "connected stream flag = (tcp_init [] flag)\<lparr>sock := Some (connect_to new_socket stream)\<rparr>"

section \<open>Graph: theorems\<close>

lemma graph_stop_trace:
  "graph_stop g tr = tr @ map StopCall (rev (executable_nodes g))"
proof -
  have f: "fold (\<lambda>n t. t @ [StopCall n]) xs t0 = t0 @ map StopCall xs" for xs t0
    by (induction xs arbitrary: t0) simp_all
  show ?thesis
    by (simp add: graph_stop_def reversed_def for_each_def f)
qed

lemma graph_A_fields:
  "nodes graph_A = {node_A}" "executable_nodes graph_A = [node_A]"
  by (simp_all add: graph_A_def graph_add_def graph_init_def has_node_with_name_def Let_def
      node_A_def)

lemma graph_ABC_executable: "executable_nodes graph_ABC = [node_A, node_B, node_C]"
  by (simp add: graph_ABC_def graph_add_def has_node_with_name_def Let_def graph_A_fields
      node_A_def node_B_def node_C_def)

text \<open>
  C1 (the code departs from the claim). With executable nodes added in the order
  A, B, C, \<open>Graph.stop\<close> requests stop on C, B, A and then returns: the second loop
  runs over the exhausted iterator, so no node is joined.
\<close>

theorem graph_stop_ABC_never_joins:
  "graph_stop graph_ABC [] = [StopCall node_C, StopCall node_B, StopCall node_A]"
  by (simp add: graph_stop_trace graph_ABC_executable)

text \<open>
  C5. \<open>Graph.add\<close> of a node whose name is taken raises the duplicate-name error and
  leaves the graph as it was; otherwise the node joins the node set, and the
  executable sequence grows by it at the end exactly when it owns a thread.
\<close>

theorem graph_add_duplicate_or_registers:
  "(has_node_with_name g (name n) \<longrightarrow>
      graph_add g n = (g, Some (DuplicateNodeNameError n g)))
   \<and> (\<not> has_node_with_name g (name n) \<longrightarrow>
      snd (graph_add g n) = None
      \<and> nodes (fst (graph_add g n)) = insert n (nodes g)
      \<and> executable_nodes (fst (graph_add g n)) =
          (if is_thread n then executable_nodes g @ [n] else executable_nodes g)
      \<and> graph_name (fst (graph_add g n)) = graph_name g)"
  by (simp add: graph_add_def Let_def)

theorem graph_add_duplicate_or_registers_witness:
  "has_node_with_name graph_A (name node_A2)
   \<and> graph_add graph_A node_A2 = (graph_A, Some (DuplicateNodeNameError node_A2 graph_A))
   \<and> \<not> has_node_with_name graph_A (name node_B)
   \<and> nodes (fst (graph_add graph_A node_B)) = {node_A, node_B}
   \<and> executable_nodes (fst (graph_add graph_A node_B)) = [node_A, node_B]"
proof -
  note a = graph_A_fields(1) and e = graph_A_fields(2)
  have d: "has_node_with_name graph_A (name node_A2)"
    by (simp add: has_node_with_name_def a node_A_def node_A2_def)
  have f: "\<not> has_node_with_name graph_A (name node_B)"
    by (simp add: has_node_with_name_def a node_A_def node_B_def)
  have t: "is_thread node_B"
    by (simp add: node_B_def)
  from graph_add_duplicate_or_registers [of graph_A node_A2] d
  have 1: "graph_add graph_A node_A2 = (graph_A, Some (DuplicateNodeNameError node_A2 graph_A))"
    by simp
  from graph_add_duplicate_or_registers [of graph_A node_B] f
  have 2: "nodes (fst (graph_add graph_A node_B)) = insert node_B (nodes graph_A)"
    and 3: "executable_nodes (fst (graph_add graph_A node_B)) =
          (if is_thread node_B then executable_nodes graph_A @ [node_B] else executable_nodes graph_A)"
    by simp_all
  show ?thesis
    using d f 1 2 3 by (auto simp: a e t)
qed

text \<open>
  The other operations keep the invariant: it holds of a new graph, and \<open>add\<close> and
  \<open>clear\<close> preserve it.
\<close>

lemma graph_init_inv: "graph_inv (graph_init n)"
  by (simp add: graph_inv_def graph_init_def)

lemma graph_add_preserves_inv: "graph_inv g \<Longrightarrow> graph_inv (fst (graph_add g n))"
  by (auto simp: graph_inv_def graph_add_def Let_def)

lemma graph_clear_inv: "graph_inv (graph_clear g)"
  by (simp add: graph_inv_def graph_clear_def)

lemma graph_remove_keeps_executable:
  "obj_id n < h \<Longrightarrow> executable_nodes (fst (snd (graph_remove h g n))) = executable_nodes g"
  by (simp add: graph_remove_def new_object_def)

text \<open>
  C9 (the code departs from the claim). Node A owns a thread and was added; the
  interpreter's next free identity is 1. \<open>Graph.remove\<close> takes A out of the node set
  and leaves it in the executable sequence, so the invariant no longer holds.
\<close>

theorem graph_remove_leaves_executable:
  "graph_inv graph_A
   \<and> nodes (fst (snd (graph_remove 1 graph_A node_A))) = {}
   \<and> executable_nodes (fst (snd (graph_remove 1 graph_A node_A))) = [node_A]
   \<and> \<not> graph_inv (fst (snd (graph_remove 1 graph_A node_A)))"
proof -
  note a = graph_A_fields(1) and e = graph_A_fields(2)
  have i: "obj_id node_A = 0"
    by (simp add: node_A_def)
  show ?thesis
    by (simp add: graph_inv_def graph_remove_def new_object_def a e i)
qed

section \<open>Publisher: theorems\<close>

lemma filter_callee_map:
  "filter (\<lambda>c. callee c = s) (map (\<lambda>x. Notify x p item) xs)
     = map (\<lambda>x. Notify x p item) (filter (\<lambda>x. x = s) xs)"
  by (induction xs) simp_all

lemma filter_eq_distinct:
  "distinct xs \<Longrightarrow> s \<in> set xs \<Longrightarrow> filter (\<lambda>x. x = s) xs = [s]"
  by (induction xs) (auto simp: filter_empty_conv)

lemma subscribers_fold:
  "subscribers (fold (\<lambda>subscriber q. add_subscriber q subscriber) subs p) = subscribers p \<union> set subs"
  by (induction subs arbitrary: p) (simp_all add: add_subscriber_def)

lemma pub_id_fold:
  "pub_id (fold (\<lambda>subscriber q. add_subscriber q subscriber) subs p) = pub_id p"
  by (induction subs arbitrary: p) (simp_all add: add_subscriber_def)

text \<open>When no subscriber in the list raises, each is called and no exception leaves.\<close>

lemma notify_each_all_return:
  "\<forall>s \<in> set xs. react s item = None \<Longrightarrow>
   notify_each react pid item xs = (map (\<lambda>x. Notify x pid item) xs, None)"
  by (induction xs) simp_all

lemma set_iter_single: "set_iter {x} = [x]"
  by (simp add: set_iter_def)

lemma set_iter_57: "set_iter {5, 7} = [5, 7]"
proof -
  have "sorted_list_of_set (set [5, 7 :: nat]) = [5, 7]"
    by (simp only: sorted_list_of_set_sort_remdups) simp
  then show ?thesis by (simp add: set_iter_def)
qed

text \<open>
  C6, as stated, fails. Two subscribers are registered, both of a class that keeps
  \<open>Subscriber.notify\<close> (a plain \<open>Sink\<close>). \<open>notify_all\<close> calls the first, whose
  \<open>notify\<close> raises \<open>NotImplementedError\<close>; the exception leaves \<open>notify_all\<close> and the
  other subscriber is not called at all. Both raise, so the order in which the set
  is visited does not matter.
\<close>

theorem notify_all_stops_at_first_exception:
  "notify_all plain_sinks (subscribe_all (publisher_init 1) [5, 7]) (42::nat)
     = ([Notify 5 1 42], Some NotImplementedError)
   \<and> filter (\<lambda>c. callee c = 7)
        (fst (notify_all plain_sinks (subscribe_all (publisher_init 1) [5, 7]) (42::nat))) = []"
proof -
  have s: "subscribers (subscribe_all (publisher_init 1) [5, 7]) = {5, 7}"
    by (auto simp: subscribe_all_def add_subscriber_def publisher_init_def)
  have i: "pub_id (subscribe_all (publisher_init 1) [5, 7]) = 1"
    by (simp add: subscribe_all_def add_subscriber_def publisher_init_def)
  show ?thesis
    unfolding notify_all_def s i set_iter_57
    by (simp add: plain_sinks_def)
qed

text \<open>
  C6, amended. After any sequence \<open>subs\<close> of \<open>add_subscriber\<close> calls, repeats
  included, when no registered subscriber's \<open>notify\<close> raises on the item, one
  \<open>notify_all(item)\<close> returns normally and calls every registered subscriber exactly
  once, with that item; it makes as many calls as there are distinct subscribers,
  and calls nobody else.
\<close>

theorem notify_all_once_each:
  assumes "\<forall>s \<in> set subs. react s item = None"
  shows "snd (notify_all react (subscribe_all (publisher_init i) subs) item) = None
   \<and> (\<forall>s \<in> set subs.
        filter (\<lambda>c. callee c = s) (fst (notify_all react (subscribe_all (publisher_init i) subs) item))
          = [Notify s i item])
   \<and> length (fst (notify_all react (subscribe_all (publisher_init i) subs) item)) = card (set subs)
   \<and> callee ` set (fst (notify_all react (subscribe_all (publisher_init i) subs) item)) = set subs"
proof -
  let ?xs = "set_iter (subscribers (subscribe_all (publisher_init i) subs))"
  have xs: "set ?xs = set subs" "distinct ?xs" "length ?xs = card (set subs)"
    by (simp_all add: set_iter_def subscribe_all_def subscribers_fold publisher_init_def)
  with assms have "\<forall>s \<in> set ?xs. react s item = None" by simp
  then have n: "notify_all react (subscribe_all (publisher_init i) subs) item
                  = (map (\<lambda>x. Notify x i item) ?xs, None)"
    by (simp add: notify_all_def notify_each_all_return subscribe_all_def pub_id_fold
        publisher_init_def)
  show ?thesis
    unfolding n using xs
    by (auto simp: filter_callee_map filter_eq_distinct image_image)
qed

theorem notify_all_once_each_witness:
  "snd (notify_all all_return (subscribe_all (publisher_init 1) [7, 5, 7]) (42::nat)) = None
   \<and> filter (\<lambda>c. callee c = 7)
        (fst (notify_all all_return (subscribe_all (publisher_init 1) [7, 5, 7]) (42::nat)))
     = [Notify 7 1 42]
   \<and> filter (\<lambda>c. callee c = 5)
        (fst (notify_all all_return (subscribe_all (publisher_init 1) [7, 5, 7]) (42::nat)))
     = [Notify 5 1 42]
   \<and> length (fst (notify_all all_return (subscribe_all (publisher_init 1) [7, 5, 7]) (42::nat))) = 2"
proof -
  have q: "\<forall>s \<in> set [7, 5, 7]. (all_return :: nat reaction) s 42 = None"
    by (simp add: all_return_def)
  from notify_all_once_each [of "[7, 5, 7]" all_return "42::nat" 1] q show ?thesis
    by (simp add: card_insert_if)
qed

section \<open>ActiveQueueNode: theorems\<close>

lemma aq_step_inv:
  "published (aq_step react p s e) @ queue (aq_step react p s e)
     = (published s @ queue s) @ enqueued [e]"
  by (cases e)
    (auto simp: aq_notify_def aq_stop_def aq_run_iteration_def split: list.splits option.splits)

lemma enqueued_append: "enqueued (xs @ ys) = enqueued xs @ enqueued ys"
  by (induction xs rule: enqueued.induct) simp_all

lemma aq_exec_inv:
  "published (aq_exec react p evs s) @ queue (aq_exec react p evs s)
     = published s @ queue s @ enqueued evs"
  unfolding aq_exec_def
  by (induction evs arbitrary: s rule: rev_induct) (simp_all add: aq_step_inv enqueued_append)

text \<open>
  While \<open>stop\<close> is not called and \<open>notify_all\<close> returns normally on every item that
  can come up, the thread stays in its loop.
\<close>

lemma aq_exec_running:
  assumes "StopReq \<notin> set evs" "\<not> aq_stopped s" "\<not> exited s"
    "\<forall>x \<in> set (published s @ queue s @ enqueued evs). snd (notify_all react p x) = None"
  shows "\<not> aq_stopped (aq_exec react p evs s) \<and> \<not> exited (aq_exec react p evs s)"
  using assms
proof (induction evs arbitrary: s rule: rev_induct)
  case Nil
  then show ?case by (simp add: aq_exec_def)
next
  case (snoc e evs)
  let ?t = "aq_exec react p evs s"
  from snoc.prems have 1: "\<not> aq_stopped ?t \<and> \<not> exited ?t"
    by (intro snoc.IH) (auto simp: enqueued_append)
  have "set (queue ?t) \<subseteq> set (published s @ queue s @ enqueued evs)"
    using aq_exec_inv [of react p evs s] by (metis set_append sup_ge2)
  with snoc.prems(4) have 2: "\<forall>x \<in> set (queue ?t). snd (notify_all react p x) = None"
    by (auto simp: enqueued_append)
  have 3: "aq_exec react p (evs @ [e]) s = aq_step react p ?t e"
    by (simp add: aq_exec_def)
  from 1 2 snoc.prems(1) show ?case
    unfolding 3
    by (cases e) (auto simp: aq_notify_def aq_run_iteration_def split: list.splits option.splits)
qed

lemma aq_drain:
  "\<not> aq_stopped s \<Longrightarrow> \<not> exited s \<Longrightarrow> length (queue s) \<le> n \<Longrightarrow>
   \<forall>x \<in> set (queue s). snd (notify_all react p x) = None \<Longrightarrow>
   published (aq_exec react p (replicate n Iter) s) = published s @ queue s"
  unfolding aq_exec_def
proof (induction n arbitrary: s)
  case 0
  then show ?case by simp
next
  case (Suc n)
  show ?case
  proof (cases "queue s")
    case Nil
    with Suc.prems have "aq_run_iteration react p s = s"
      by (simp add: aq_run_iteration_def)
    with Suc.IH [of s] Suc.prems Nil show ?thesis by simp
  next
    case (Cons x xs)
    let ?s = "s\<lparr>queue := xs, published := published s @ [x]\<rparr>"
    from Cons Suc.prems have "aq_run_iteration react p s = ?s"
      by (simp add: aq_run_iteration_def)
    with Suc.IH [of ?s] Suc.prems Cons show ?thesis by simp
  qed
qed

text \<open>
  C7, as stated, fails: two items are enqueued, \<open>stop()\<close> is called, and the thread's
  next look at the flag ends its loop. Both items are still in the queue and neither
  has been published.
\<close>

theorem aq_stop_leaves_items_unpublished:
  "enqueued [Put (1::nat), Put 2, StopReq, Iter] = [1, 2]
   \<and> exited (aq_exec all_return queue_pub [Put (1::nat), Put 2, StopReq, Iter] aq_init)
   \<and> published (aq_exec all_return queue_pub [Put (1::nat), Put 2, StopReq, Iter] aq_init) = []
   \<and> queue (aq_exec all_return queue_pub [Put (1::nat), Put 2, StopReq, Iter] aq_init) = [1, 2]"
  by (simp add: aq_exec_def aq_init_def aq_notify_def aq_stop_def aq_run_iteration_def)

text \<open>
  The same happens without \<open>stop()\<close> when a subscriber raises: the exception leaves
  \<open>run\<close>, the thread ends, and the second item stays in the queue.
\<close>

lemma aq_subscriber_exception_ends_thread:
  "exited (aq_exec plain_sinks queue_pub [Put (1::nat), Put 2, Iter, Iter] aq_init)
   \<and> aq_raised (aq_exec plain_sinks queue_pub [Put (1::nat), Put 2, Iter, Iter] aq_init)
       = Some NotImplementedError
   \<and> queue (aq_exec plain_sinks queue_pub [Put (1::nat), Put 2, Iter, Iter] aq_init) = [2]"
  by (simp add: aq_exec_def aq_init_def aq_notify_def aq_run_iteration_def notify_all_def
      queue_pub_def set_iter_57 plain_sinks_def)

text \<open>
  C7, amended. Under every interleaving of \<open>notify\<close> calls, \<open>stop\<close> calls and trips of
  the node's loop, and whatever the subscribers do, the items handed to
  \<open>notify_all\<close> so far followed by the items still queued are the items enqueued, in
  the order they were enqueued: publication is first-in first-out, no item is
  published twice, and none before an earlier one. When \<open>stop\<close> has not been called
  and \<open>notify_all\<close> returns normally on every enqueued item (no subscriber raises),
  enough further trips of the loop publish every enqueued item, each once, in that
  order.
\<close>

theorem aq_publishes_fifo:
  "published (aq_exec react p evs aq_init) @ queue (aq_exec react p evs aq_init) = enqueued evs
   \<and> (StopReq \<notin> set evs
        \<and> (\<forall>x \<in> set (enqueued evs). snd (notify_all react p x) = None)
        \<and> length (queue (aq_exec react p evs aq_init)) \<le> n \<longrightarrow>
        published (aq_exec react p (evs @ replicate n Iter) aq_init) = enqueued evs)"
proof -
  let ?t = "aq_exec react p evs aq_init"
  have 1: "published ?t @ queue ?t = enqueued evs"
    using aq_exec_inv [of react p evs aq_init] by (simp add: aq_init_def)
  have 2: "published (aq_exec react p (evs @ replicate n Iter) aq_init) = enqueued evs"
    if a: "StopReq \<notin> set evs"
      and q: "\<forall>x \<in> set (enqueued evs). snd (notify_all react p x) = None"
      and b: "length (queue ?t) \<le> n"
  proof -
    have r: "\<not> aq_stopped ?t \<and> \<not> exited ?t"
      by (rule aq_exec_running [OF a]) (use q in \<open>simp_all add: aq_init_def\<close>)
    have "set (queue ?t) \<subseteq> set (enqueued evs)"
      using 1 by (metis set_append sup_ge2)
    with q have q2: "\<forall>x \<in> set (queue ?t). snd (notify_all react p x) = None" by auto
    have "aq_exec react p (evs @ replicate n Iter) aq_init = aq_exec react p (replicate n Iter) ?t"
      by (simp add: aq_exec_def)
    with aq_drain [of ?t n react p] r b q2 1 show ?thesis by simp
  qed
  from 1 2 show ?thesis by blast
qed

theorem aq_publishes_fifo_witness:
  "StopReq \<notin> set [Put (1::nat), Iter, Put 2, Put 3]
   \<and> length (queue (aq_exec all_return queue_pub [Put (1::nat), Iter, Put 2, Put 3] aq_init)) \<le> 2
   \<and> published (aq_exec all_return queue_pub ([Put (1::nat), Iter, Put 2, Put 3] @ replicate 2 Iter)
        aq_init) = [1, 2, 3]"
proof -
  have a: "StopReq \<notin> set [Put (1::nat), Iter, Put 2, Put 3]" by simp
  have q: "\<forall>x \<in> set (enqueued [Put (1::nat), Iter, Put 2, Put 3]).
             snd (notify_all all_return queue_pub x) = None"
    by (simp add: notify_all_def queue_pub_def set_iter_57 all_return_def)
  have b: "length (queue (aq_exec all_return queue_pub [Put (1::nat), Iter, Put 2, Put 3] aq_init)) \<le> 2"
    by (simp add: aq_exec_def aq_init_def aq_notify_def aq_run_iteration_def notify_all_def
        queue_pub_def set_iter_57 all_return_def)
  from aq_publishes_fifo [of all_return queue_pub "[Put (1::nat), Iter, Put 2, Put 3]" 2] a q b
  show ?thesis by simp
qed

section \<open>TcpSourceSink: theorems\<close>

lemma recv_received_connected: "recv k n = (Received h, k') \<Longrightarrow> is_connected k'"
  by (auto simp: recv_def split: if_splits prod.splits)

lemma is_set_clear: "clear_for (Suc n) s \<Longrightarrow> is_set s = (False, after_polls (Suc 0) s)"
  by (auto simp: clear_for_def after_polls_def is_set_def split: option.splits nat.splits)

lemma clear_for_step: "clear_for (Suc n) s \<Longrightarrow> clear_for n (after_polls (Suc 0) s)"
  by (auto simp: clear_for_def after_polls_def split: option.splits)

lemma after_polls_Suc: "after_polls n (after_polls (Suc 0) s) = after_polls (Suc n) s"
  by (cases "stopped s") (simp_all add: after_polls_def)

lemma after_polls_0: "after_polls 0 s = s"
  by (cases "stopped s") (simp_all add: after_polls_def)

lemma payload_events_bytes: "payload_events evs \<Longrightarrow> evs \<noteq> [] \<Longrightarrow> stream_bytes evs \<noteq> []"
  by (induction evs rule: payload_events.induct) auto

lemma payload_events_tail:
  "payload_events (e # evs) \<Longrightarrow> payload_events evs"
  by (cases evs; cases e) auto

lemma payload_events_head:
  "payload_events (e # evs) \<Longrightarrow> e = Idle \<or> (\<exists>bs. e = Data bs)"
  by (cases evs; cases e) auto

lemma payload_events_pause:
  "payload_events (e # evs) \<Longrightarrow> e = Idle \<or> e = Data [] \<Longrightarrow> evs \<noteq> []"
  by (cases evs; cases e) auto

text \<open>A pause or an empty segment at the head of the stream is passed over by the
  blocking \<open>recv\<close> of the payload loop.\<close>

lemma receive_payload_pause:
  assumes "timeout k = None" "is_connected k" "rx k = e # later" "e = Idle \<or> e = Data []"
    "bytes_read < bytes_to_read" "\<not> fst (is_set s)"
  shows "receive_payload s k bytes_to_read bytes_read data
           = receive_payload s (k\<lparr>rx := later\<rparr>) bytes_to_read bytes_read data"
proof -
  have r: "recv k (bytes_to_read - bytes_read) = recv (k\<lparr>rx := later\<rparr>) (bytes_to_read - bytes_read)"
    using assms(1-4) by (auto simp: recv_def)
  show ?thesis
    unfolding receive_payload.simps [of s k bytes_to_read bytes_read data]
      receive_payload.simps [of s "k\<lparr>rx := later\<rparr>" bytes_to_read bytes_read data] r
    using assms(5,6) by simp
qed

lemma payload_events_reads: "payload_events evs \<Longrightarrow> evs \<noteq> [] \<Longrightarrow> 0 < reads evs"
  by (induction evs rule: payload_events.induct) auto

text \<open>
  The payload loop on a stream whose next events carry exactly the bytes still
  missing, with the stop flag clear at each of its polls: it reads them all, however
  they are cut and however long the sender pauses, and consumes nothing more.
\<close>

lemma receive_payload_events:
  assumes "clear_for (reads evs) s" "timeout k = None" "rx k = evs @ rest"
    "payload_events evs" "bytes_to_read - bytes_read = int (length (stream_bytes evs))"
    "is_connected k"
  shows "receive_payload s k bytes_to_read bytes_read data
           = LoopExit (after_polls (reads evs) s) (k\<lparr>rx := rest\<rparr>) bytes_to_read
               (data @ stream_bytes evs)"
  using assms
proof (induction evs arbitrary: s k bytes_read data)
  case Nil
  then show ?case
    by (subst receive_payload.simps) (simp add: after_polls_0)
next
  case (Cons e evs)
  note pe = payload_events_tail [OF Cons.prems(4)]
  show ?case
  proof (cases "e = Idle \<or> e = Data []")
    case True
    with Cons.prems(4) have ne: "evs \<noteq> []" by (rule payload_events_pause)
    from True have sb: "stream_bytes (e # evs) = stream_bytes evs" and rd: "reads (e # evs) = reads evs"
      by auto
    from payload_events_bytes [OF pe ne] Cons.prems(5) sb have lt: "bytes_read < bytes_to_read"
      by (cases "stream_bytes evs") auto
    from payload_events_reads [OF pe ne] obtain m where "reads evs = Suc m"
      by (cases "reads evs") auto
    with Cons.prems(1) rd have ns: "\<not> fst (is_set s)"
      by (simp add: is_set_clear)
    have sk: "receive_payload s k bytes_to_read bytes_read data
                = receive_payload s (k\<lparr>rx := evs @ rest\<rparr>) bytes_to_read bytes_read data"
      using Cons.prems(2,3,6) True lt ns by (intro receive_payload_pause) auto
    have "receive_payload s (k\<lparr>rx := evs @ rest\<rparr>) bytes_to_read bytes_read data
            = LoopExit (after_polls (reads evs) s) (k\<lparr>rx := evs @ rest, rx := rest\<rparr>) bytes_to_read
                (data @ stream_bytes evs)"
      using Cons.prems pe sb rd by (intro Cons.IH) auto
    with sk sb rd show ?thesis by simp
  next
    case False
    with payload_events_head [OF Cons.prems(4)] obtain c where e: "e = Data c" and c: "c \<noteq> []"
      by auto
    let ?n = "bytes_to_read - bytes_read"
    from Cons.prems e have n: "?n = int (length c) + int (length (stream_bytes evs))" by simp
    with c have lt: "bytes_read < bytes_to_read" by (cases c) auto
    from n have len: "length c \<le> nat ?n" by simp
    from Cons.prems(1) e c have p: "is_set s = (False, after_polls (Suc 0) s)"
      by (simp add: is_set_clear)
    from Cons.prems(1) e c have cl: "clear_for (reads evs) (after_polls (Suc 0) s)"
      by (simp add: clear_for_step)
    have r: "recv k ?n = (Received c, k\<lparr>rx := evs @ rest\<rparr>)"
      using Cons.prems(2,3,6) e c len by (simp add: recv_def)
    have ih: "receive_payload (after_polls (Suc 0) s) (k\<lparr>rx := evs @ rest\<rparr>) bytes_to_read
                (bytes_read + int (length c)) (data @ c)
        = LoopExit (after_polls (reads evs) (after_polls (Suc 0) s))
            (k\<lparr>rx := evs @ rest, rx := rest\<rparr>) bytes_to_read ((data @ c) @ stream_bytes evs)"
      using Cons.prems n cl pe by (intro Cons.IH) auto
    show ?thesis
      by (subst receive_payload.simps) (simp add: lt p r c e ih after_polls_Suc)
  qed
qed

text \<open>
  C2, as stated, fails. The stream holds the header \<open>[0, 2]\<close> and its two payload
  bytes, and \<open>stop()\<close> has been called since the run loop last looked at the flag. The
  fetch step reads the header, finds the flag set at the payload loop, delivers
  nothing and returns \<open>True\<close>; the payload bytes stay in the stream.
\<close>

theorem fetch_after_stop_delivers_nothing:
  "tcp_get_next_item (be16_config False True) (connected [Data [0, 2, 10, 20]] (Some 0))
     = Return (True,
         \<lparr>sock = Some \<lparr>is_connected = True, rx = [Data [10, 20]], timeout = Some sock_timeout, sent = [], tx = []\<rparr>,
          server_sock = None, stopped = Some 0, delivered = [], net = []\<rparr>)"
  by (simp add: tcp_get_next_item_def be16_config_def be16_config_to_def connected_def tcp_init_def
      new_socket_def connect_to_def recv_def settimeout_def read_message_def be16_def
      receive_payload.simps is_set_def Let_def notify_all_def set_iter_single all_return_def)

text \<open>
  C2, amended. The header length is positive, the first read returns the whole
  header, and the stream then carries the payload, cut into segments in any way and
  with any pauses between them, its length being what the strategy computes from the
  header. The stop flag stays clear at the polls of the payload loop, one for each
  segment, and no subscriber's \<open>notify\<close> raises on the item. Then one fetch step
  returns \<open>True\<close> and delivers exactly one item: header and payload when
  \<open>keep_header_data\<close> is set, the payload alone otherwise. It leaves the socket open
  at the first byte after the message.
\<close>

theorem fetch_delivers_one_message:
  assumes H: "header_length c > 0"
    and k: "sock s = Some k"
    and hdr: "recv (settimeout k (Some sock_timeout)) (header_length c) = (Received header, k')"
    and hlen: "int (length header) = header_length c"
    and stream: "rx k' = evs @ rest"
    and evs: "payload_events evs"
    and size: "get_message_size c header = int (length (stream_bytes evs))"
    and flag: "clear_for (reads evs) s"
    and quiet: "snd (notify_all (reaction c) (node_pub c)
                  (if keep_header_data c then header @ stream_bytes evs else stream_bytes evs)) = None"
  shows "tcp_get_next_item c s =
           Return (True,
             (after_polls (reads evs) s)
               \<lparr>delivered := delivered s @
                   [if keep_header_data c then header @ stream_bytes evs else stream_bytes evs],
                sock := Some (k'\<lparr>rx := rest, timeout := Some sock_timeout\<rparr>)\<rparr>)"
proof -
  from H hlen have hne: "header \<noteq> []" by auto
  have lp: "receive_payload s (settimeout k' None) (int (length (stream_bytes evs))) 0 []
     = LoopExit (after_polls (reads evs) s) ((settimeout k' None)\<lparr>rx := rest\<rparr>)
         (int (length (stream_bytes evs))) ([] @ stream_bytes evs)"
    by (rule receive_payload_events [OF flag _ _ evs])
      (simp_all add: settimeout_def stream recv_received_connected [OF hdr])
  have 1: "tcp_get_next_item c s = read_message c s k' header"
    by (simp add: tcp_get_next_item_def k H hdr hne Let_def)
  show ?thesis
    unfolding 1 read_message_def Let_def size lp
    using quiet H by (cases "keep_header_data c") (simp_all add: settimeout_def after_polls_def)
qed

theorem fetch_delivers_one_message_witness:
  "tcp_get_next_item (be16_config False True)
       (connected [Data [0, 2, 10], Idle, Data [20], Idle] (Some 3))
     = Return (True,
         \<lparr>sock = Some \<lparr>is_connected = True, rx = [Idle], timeout = Some sock_timeout, sent = [], tx = []\<rparr>,
          server_sock = None, stopped = Some 1, delivered = [[0, 2, 10, 20]], net = []\<rparr>)
   \<and> tcp_get_next_item (be16_config False False)
       (connected [Data [0, 2, 10], Idle, Data [20], Idle] None)
     = Return (True,
         \<lparr>sock = Some \<lparr>is_connected = True, rx = [Idle], timeout = Some sock_timeout, sent = [], tx = []\<rparr>,
          server_sock = None, stopped = None, delivered = [[10, 20]], net = []\<rparr>)"
proof -
  let ?k = "connect_to new_socket [Data [0, 2, 10], Idle, Data [20], Idle]"
  let ?k' = "\<lparr>is_connected = True, rx = [Data [10], Idle, Data [20], Idle],
              timeout = Some sock_timeout, sent = [], tx = []\<rparr>"
  let ?evs = "[Data [10], Idle, Data [20 :: 8 word]]"
  have H: "header_length (be16_config False keep) > 0" for keep
    by (simp add: be16_config_def be16_config_to_def)
  have k: "sock (connected [Data [0, 2, 10], Idle, Data [20], Idle] flag) = Some ?k" for flag
    by (simp add: connected_def)
  have hdr: "recv (settimeout ?k (Some sock_timeout)) (header_length (be16_config False keep))
               = (Received [0, 2], ?k')" for keep
    by (simp add: recv_def settimeout_def new_socket_def connect_to_def be16_config_def
        be16_config_to_def)
  have hlen: "int (length [0, 2 :: 8 word]) = header_length (be16_config False keep)" for keep
    by (simp add: be16_config_def be16_config_to_def)
  have stream: "rx ?k' = ?evs @ [Idle]"
    by simp
  have evs: "payload_events ?evs"
    by simp
  have size: "get_message_size (be16_config False keep) [0, 2]
                = int (length (stream_bytes ?evs))" for keep
    by (simp add: be16_config_def be16_config_to_def be16_def)
  have flag: "clear_for (reads ?evs) (connected [Data [0, 2, 10], Idle, Data [20], Idle] (Some 3))"
    "clear_for (reads ?evs) (connected [Data [0, 2, 10], Idle, Data [20], Idle] None)"
    by (simp_all add: clear_for_def connected_def tcp_init_def)
  have quiet: "snd (notify_all (reaction (be16_config False keep)) (node_pub (be16_config False keep))
                 (if keep_header_data (be16_config False keep) then [0, 2] @ stream_bytes ?evs
                  else stream_bytes ?evs)) = None" for keep
    by (simp add: be16_config_def be16_config_to_def notify_all_def set_iter_single all_return_def)
  have kp: "keep_header_data (be16_config False keep) = keep" for keep
    by (simp add: be16_config_def be16_config_to_def)
  from fetch_delivers_one_message [OF H k hdr hlen stream evs size flag(1) quiet, of True]
    fetch_delivers_one_message [OF H k hdr hlen stream evs size flag(2) quiet, of False]
  show ?thesis
    by (simp add: kp connected_def tcp_init_def after_polls_def)
qed

text \<open>
  The part of C3 that holds: an empty read of the header closes the socket and the
  fetch step returns \<open>False\<close>.
\<close>

lemma empty_header_read_closes:
  assumes "header_length c > 0" "sock s = Some k"
    "recv (settimeout k (Some sock_timeout)) (header_length c) = (Received [], k')"
  shows "tcp_get_next_item c s = Return (False, s\<lparr>sock := None\<rparr>)"
  using assms
  by (simp add: tcp_get_next_item_def Let_def close_sock_def)

text \<open>
  C3 (the code departs from the claim). The header is two bytes long and its first
  byte arrives alone. \<open>recv(2)\<close> returns that one byte; the fetch step takes it for
  the header, computes a payload length of 0 from it, delivers the lone byte as an
  item and returns \<open>True\<close> with the socket open. Nothing treats the short read as the
  peer having closed, and nothing reads the second header byte before the payload
  length is computed.
\<close>

theorem short_header_read_is_taken_for_header:
  "tcp_get_next_item (be16_config False True) (connected [Data [0], Data [1, 7]] None)
     = Return (True,
         \<lparr>sock = Some \<lparr>is_connected = True, rx = [Data [1, 7]], timeout = Some sock_timeout, sent = [], tx = []\<rparr>,
          server_sock = None, stopped = None, delivered = [[0]], net = []\<rparr>)"
  by (simp add: tcp_get_next_item_def be16_config_def be16_config_to_def connected_def tcp_init_def
      new_socket_def connect_to_def recv_def settimeout_def read_message_def be16_def
      receive_payload.simps is_set_def Let_def notify_all_def set_iter_single all_return_def)

text \<open>
  C10, as stated, fails. The header \<open>[0, 0]\<close> is read and the strategy computes a
  payload length of 0, but the node's subscriber raises a \<open>ConnectionError\<close> from its
  \<open>notify\<close> (its own connection is broken). \<open>notify_all\<close> stands inside the \<open>try\<close> of
  the fetch step, so the node takes the exception for one of its own socket: it
  closes its socket and returns \<open>False\<close>. With a subscriber that keeps
  \<open>Subscriber.notify\<close> the exception leaves the fetch step.
\<close>

theorem zero_size_message_subscriber_raises:
  "tcp_get_next_item (be16_config_to broken_pipe False True) (connected [Data [0, 0, 9]] None)
     = Return (False,
         \<lparr>sock = None, server_sock = None, stopped = None, delivered = [[0, 0]], net = []\<rparr>)
   \<and> tcp_get_next_item (be16_config_to plain_sinks False True) (connected [Data [0, 0, 9]] None)
     = Raise NotImplementedError"
  by (simp add: tcp_get_next_item_def be16_config_to_def connected_def tcp_init_def new_socket_def
      connect_to_def recv_def settimeout_def read_message_def be16_def receive_payload.simps
      Let_def notify_all_def set_iter_single broken_pipe_def plain_sinks_def handle_exn_def
      close_sock_def)

text \<open>
  C10, amended. A non-empty header has been read, the strategy computes a payload
  length of 0 from it, and no subscriber's \<open>notify\<close> raises on the item. The fetch
  step then delivers exactly one item and returns \<open>True\<close>: the header bytes when
  \<open>keep_header_data\<close> is set, the empty byte string otherwise. The stop flag plays no
  part: no payload byte is missing, so the loop never polls it.
\<close>

theorem zero_size_message_is_delivered:
  assumes H: "header_length c > 0"
    and k: "sock s = Some k"
    and hdr: "recv (settimeout k (Some sock_timeout)) (header_length c) = (Received header_bytes, k')"
    and ne: "header_bytes \<noteq> []"
    and size: "get_message_size c header_bytes = 0"
    and quiet: "snd (notify_all (reaction c) (node_pub c)
                  (if keep_header_data c then header_bytes else [])) = None"
  shows "tcp_get_next_item c s =
           Return (True,
             s\<lparr>delivered := delivered s @ [if keep_header_data c then header_bytes else []],
               sock := Some (settimeout k' (Some sock_timeout))\<rparr>)"
proof -
  have 1: "tcp_get_next_item c s = read_message c s k' header_bytes"
    by (simp add: tcp_get_next_item_def k H hdr ne Let_def)
  have lp: "receive_payload s (settimeout k' None) 0 0 [] = LoopExit s (settimeout k' None) 0 []"
    by (subst receive_payload.simps) simp
  show ?thesis
    unfolding 1 read_message_def Let_def size lp
    using quiet H by (cases "keep_header_data c") (simp_all add: settimeout_def)
qed

theorem zero_size_message_is_delivered_witness:
  "tcp_get_next_item (be16_config False True) (connected [Data [0, 0, 9]] (Some 0))
     = Return (True,
         \<lparr>sock = Some \<lparr>is_connected = True, rx = [Data [9]], timeout = Some sock_timeout, sent = [], tx = []\<rparr>,
          server_sock = None, stopped = Some 0, delivered = [[0, 0]], net = []\<rparr>)
   \<and> tcp_get_next_item (be16_config False False) (connected [Data [0, 0, 9]] (Some 0))
     = Return (True,
         \<lparr>sock = Some \<lparr>is_connected = True, rx = [Data [9]], timeout = Some sock_timeout, sent = [], tx = []\<rparr>,
          server_sock = None, stopped = Some 0, delivered = [[]], net = []\<rparr>)"
proof -
  let ?s = "connected [Data [0, 0, 9]] (Some 0)"
  let ?k = "connect_to new_socket [Data [0, 0, 9]]"
  let ?k' = "\<lparr>is_connected = True, rx = [Data [9]], timeout = Some sock_timeout, sent = [], tx = []\<rparr>"
  have H: "header_length (be16_config False keep) > 0" for keep
    by (simp add: be16_config_def be16_config_to_def)
  have k: "sock ?s = Some ?k"
    by (simp add: connected_def)
  have hdr: "recv (settimeout ?k (Some sock_timeout)) (header_length (be16_config False keep))
               = (Received [0, 0], ?k')" for keep
    by (simp add: recv_def settimeout_def new_socket_def connect_to_def be16_config_def
        be16_config_to_def)
  have ne: "[0, 0 :: 8 word] \<noteq> []"
    by simp
  have size: "get_message_size (be16_config False keep) [0, 0] = 0" for keep
    by (simp add: be16_config_def be16_config_to_def be16_def)
  have quiet: "snd (notify_all (reaction (be16_config False keep)) (node_pub (be16_config False keep))
                 (if keep_header_data (be16_config False keep) then [0, 0] else [])) = None" for keep
    by (simp add: be16_config_def be16_config_to_def notify_all_def set_iter_single all_return_def)
  have kp: "keep_header_data (be16_config False keep) = keep" for keep
    by (simp add: be16_config_def be16_config_to_def)
  from zero_size_message_is_delivered [OF H k hdr ne size quiet, of True]
    zero_size_message_is_delivered [OF H k hdr ne size quiet, of False]
  show ?thesis
    by (simp add: kp connected_def tcp_init_def settimeout_def)
qed

text \<open>
  The run loop returns only through its guard: when it returns, the stop flag is set.
\<close>

lemma run_loop_returns_stopped:
  "run_loop c fuel s = Return s' \<Longrightarrow> stopped s' = Some 0"
proof (induction fuel arbitrary: s)
  case 0
  then show ?case by simp
next
  case (Suc fuel)
  show ?case
  proof (cases "fst (is_set s)")
    case True
    with Suc.prems have "s' = snd (is_set s)" by simp
    with True show ?thesis
      by (auto simp: is_set_def split: option.splits nat.splits)
  next
    case False
    with Suc.prems Suc.IH show ?thesis
      by (auto split: outcome.splits if_splits)
  qed
qed

lemma tcp_run_returns_stopped:
  "tcp_run c fuel s = Return s' \<Longrightarrow> stopped s' = Some 0"
  by (auto simp: tcp_run_def split: outcome.splits dest: run_loop_returns_stopped)

text \<open>
  After a failed fetch step a client runs \<open>initialize\<close> again, with a new socket, and
  a server goes back to \<open>accept\<close> on the listening socket it has.
\<close>

lemma recover_client: "\<not> is_server c \<Longrightarrow> recover c fuel s = tcp_initialize c fuel s"
  by (simp add: recover_def)

lemma recover_server: "is_server c \<Longrightarrow> recover c fuel s = run_accept fuel s"
  by (simp add: recover_def)

lemma run_accept_keeps_listener:
  "run_accept fuel s = Return s' \<Longrightarrow> server_sock s' = server_sock s"
proof (induction fuel arbitrary: s)
  case 0
  then show ?case by simp
next
  case (Suc fuel)
  have n: "server_sock (snd (next_attempt x)) = server_sock x" for x
    by (simp add: next_attempt_def split: list.splits)
  have i: "server_sock (snd (is_set x)) = server_sock x" for x
    by (simp add: is_set_def split: option.splits nat.splits)
  from Suc.prems show ?case
    using Suc.IH [of "snd (next_attempt (snd (is_set s)))"] n [of "snd (is_set s)"] i [of s]
    by (auto split: if_splits option.splits prod.splits attempt.splits)
qed

text \<open>
  In the client role, when no subscriber raises and \<open>recv\<close> on the connection fails
  only in the ways the stream events describe, no exception leaves \<open>run\<close>: the node
  holds a connected socket whenever the fetch step runs, and the connect loop of
  \<open>initialize\<close> passes over every failure of \<open>connect\<close>.
\<close>

lemma is_set_sock: "sock (snd (is_set s)) = sock s"
  by (simp add: is_set_def split: option.splits nat.splits)

lemma is_set_seen: "fst (is_set s) \<Longrightarrow> stopped (snd (is_set s)) = Some 0"
  by (auto simp: is_set_def split: option.splits nat.splits)

lemma is_set_not_seen: "\<not> fst (is_set s) \<Longrightarrow> stopped s \<noteq> Some 0"
  by (auto simp: is_set_def split: option.splits nat.splits)

lemma next_attempt_sock: "sock (snd (next_attempt s)) = sock s"
  by (simp add: next_attempt_def split: list.splits)

lemma recv_connected:
  "is_connected k \<Longrightarrow> fst (recv k n) \<noteq> NotConnected \<and> is_connected (snd (recv k n))"
proof -
  have "fst (recv_from t m evs) \<noteq> NotConnected" for t m evs
    by (induction t m evs rule: recv_from.induct) auto
  then show "is_connected k \<Longrightarrow> fst (recv k n) \<noteq> NotConnected \<and> is_connected (snd (recv k n))"
    by (auto simp: recv_def split: prod.splits) (metis fst_conv)
qed

lemma receive_payload_connected:
  "is_connected k \<Longrightarrow>
   (case receive_payload s k bytes_to_read bytes_read data of
      LoopOSError \<Rightarrow> False
    | LoopExit s1 k1 n d \<Rightarrow> is_connected k1
    | LoopTimeout s1 k1 \<Rightarrow> is_connected k1
    | _ \<Rightarrow> True)"
proof (induction s k bytes_to_read bytes_read data rule: receive_payload.induct)
  case (1 s k bytes_to_read bytes_read data)
  note c = recv_connected [OF "1.prems", of "bytes_to_read - bytes_read"]
  show ?case
  proof (cases "bytes_read < bytes_to_read \<and> \<not> fst (is_set s)")
    case False
    then show ?thesis
      using "1.prems" by (subst receive_payload.simps) auto
  next
    case True
    show ?thesis
    proof (cases "fst (recv k (bytes_to_read - bytes_read))")
      case (Received tmp_data)
      show ?thesis
      proof (cases "tmp_data = []")
        case True
        with \<open>bytes_read < bytes_to_read \<and> \<not> fst (is_set s)\<close> Received show ?thesis
          by (subst receive_payload.simps) simp
      next
        case False
        from "1.IH" [of tmp_data] True Received False c
        have "case receive_payload (snd (is_set s)) (snd (recv k (bytes_to_read - bytes_read)))
                bytes_to_read (bytes_read + int (length tmp_data)) (data @ tmp_data) of
                LoopOSError \<Rightarrow> False
              | LoopExit s1 k1 n d \<Rightarrow> is_connected k1
              | LoopTimeout s1 k1 \<Rightarrow> is_connected k1
              | _ \<Rightarrow> True"
          by simp
        with True Received False show ?thesis
          by (subst receive_payload.simps) simp
      qed
    qed (use True c in \<open>subst receive_payload.simps, simp\<close>)+
  qed
qed

lemma read_message_client:
  "is_connected k \<Longrightarrow> \<forall>item. snd (notify_all (reaction c) (node_pub c) item) = None \<Longrightarrow>
   read_message c s k hb \<noteq> Raise e
   \<and> (read_message c s k hb = Return (True, s') \<longrightarrow> linked s')"
  using receive_payload_connected [of "settimeout k None" s "get_message_size c hb" 0 "[]"]
  by (auto simp: read_message_def Let_def close_sock_def linked_def settimeout_def
      split: payload_result.splits)

lemma get_next_item_client:
  "linked s \<Longrightarrow> \<forall>item. snd (notify_all (reaction c) (node_pub c) item) = None \<Longrightarrow>
   tcp_get_next_item c s \<noteq> Raise e
   \<and> (tcp_get_next_item c s = Return (True, s') \<longrightarrow> linked s')"
proof -
  assume l: "linked s" and q: "\<forall>item. snd (notify_all (reaction c) (node_pub c) item) = None"
  then obtain k where k: "sock s = Some k" and ck: "is_connected k"
    by (auto simp: linked_def split: option.splits)
  let ?k1 = "settimeout k (Some sock_timeout)"
  have c1: "is_connected ?k1" using ck by (simp add: settimeout_def)
  note rc = recv_connected [OF c1, of "header_length c"]
  show ?thesis
  proof (cases "header_length c > 0")
    case False
    with k read_message_client [OF c1 q, of s "[]" e s'] show ?thesis
      by (simp add: tcp_get_next_item_def Let_def)
  next
    case True
    obtain r k2 where r: "recv ?k1 (header_length c) = (r, k2)"
      by (cases "recv ?k1 (header_length c)")
    with rc have nc: "r \<noteq> NotConnected" and c2: "is_connected k2" by simp_all
    show ?thesis
      using True k r nc c2 read_message_client [OF c2 q, of s _ e s']
      by (cases r) (auto simp: tcp_get_next_item_def Let_def close_sock_def linked_def)
  qed
qed

lemma initialize_connect_client:
  "sock s \<noteq> None \<Longrightarrow>
   initialize_connect fuel s \<noteq> Raise e
   \<and> (initialize_connect fuel s = Return s' \<longrightarrow> linked s' \<or> stopped s' = Some 0)"
proof (induction fuel arbitrary: s)
  case 0
  then show ?case by simp
next
  case (Suc fuel)
  let ?t = "snd (next_attempt (snd (is_set s)))"
  have "sock ?t \<noteq> None"
    using Suc.prems by (simp add: next_attempt_sock is_set_sock)
  from Suc.IH [OF this] Suc.prems is_set_seen [of s] show ?case
    by (auto simp: linked_def connect_to_def split: option.splits prod.splits attempt.splits)
qed

lemma tcp_initialize_client:
  "\<not> is_server c \<Longrightarrow>
   tcp_initialize c fuel s \<noteq> Raise e
   \<and> (tcp_initialize c fuel s = Return s' \<longrightarrow> linked s' \<or> stopped s' = Some 0)"
  using initialize_connect_client
    [of "s\<lparr>sock := Some (settimeout new_socket (Some sock_timeout))\<rparr>" fuel e s']
  by (simp add: tcp_initialize_def)

lemma run_loop_client:
  assumes "\<not> is_server c" "linked s \<or> stopped s = Some 0"
    and q: "\<forall>item. snd (notify_all (reaction c) (node_pub c) item) = None"
  shows "run_loop c fuel s \<noteq> Raise e"
  using assms(1,2)
proof (induction fuel arbitrary: s)
  case 0
  then show ?case by simp
next
  case (Suc fuel)
  let ?s1 = "snd (is_set s)"
  show ?case
  proof (cases "fst (is_set s)")
    case True
    then show ?thesis by simp
  next
    case False
    with Suc.prems(2) is_set_not_seen [of s] have "linked s" by auto
    then have s1: "linked ?s1" by (simp add: linked_def is_set_sock)
    show ?thesis
    proof (cases "tcp_get_next_item c ?s1")
      case (Return r)
      show ?thesis
      proof (cases "fst r")
        case True
        with Return get_next_item_client [OF s1 q, of e "snd r"] have "linked (snd r)"
          by (cases r) auto
        then have "linked (snd r) \<or> stopped (snd r) = Some 0" ..
        from Suc.IH [OF Suc.prems(1) this] False Return True show ?thesis by simp
      next
        case f: False
        show ?thesis
        proof (cases "tcp_initialize c fuel (snd r)")
          case r2: (Return s2)
          with tcp_initialize_client [OF Suc.prems(1), of fuel "snd r" e s2]
          have "linked s2 \<or> stopped s2 = Some 0" by simp
          from Suc.IH [OF Suc.prems(1) this] False Return f r2 Suc.prems(1) show ?thesis
            by (simp add: recover_def)
        next
          case (Raise x)
          with tcp_initialize_client [OF Suc.prems(1), of fuel "snd r" x] show ?thesis by simp
        qed (use False Return f Suc.prems(1) in \<open>simp_all add: recover_def\<close>)
      qed
    next
      case (Raise x)
      with get_next_item_client [OF s1 q, of x] show ?thesis by simp
    qed (use False in simp_all)
  qed
qed

lemma client_run_never_raises:
  "\<not> is_server c \<Longrightarrow> \<forall>item. snd (notify_all (reaction c) (node_pub c) item) = None \<Longrightarrow>
   tcp_run c fuel s \<noteq> Raise e"
  using tcp_initialize_client [of c fuel s e] run_loop_client [of c _ fuel e]
  by (auto simp: tcp_run_def split: outcome.splits)

text \<open>
  A server that reconnects and then stops: the peer closes, the first new \<open>accept\<close>
  times out, the second brings a connection with one message, and \<open>stop()\<close> ends the
  loop.
\<close>

lemma server_reaccepts_until_stopped:
  "tcp_run (be16_config True True) 6
       (tcp_init [Established [Eof], TimedOut, Established [Data [0, 1, 7]]] (Some 6))
     = Return
         \<lparr>sock = Some \<lparr>is_connected = True, rx = [], timeout = Some sock_timeout, sent = [], tx = []\<rparr>,
          server_sock = Some \<lparr>l_timeout = Some sock_timeout, l_backlog = 1\<rparr>,
          stopped = Some 0, delivered = [[0, 1, 7]], net = []\<rparr>"
  by (simp add: tcp_run_def tcp_initialize_def be16_config_def be16_config_to_def tcp_init_def
      is_set_def next_attempt_def numeral_eq_Suc tcp_get_next_item_def recv_def settimeout_def
      new_socket_def connect_to_def close_sock_def recover_def read_message_def be16_def
      receive_payload.simps Let_def notify_all_def set_iter_single all_return_def)

text \<open>
  C4 (the code departs from the claim). A server has accepted a connection and the
  peer closes it. The fetch step returns \<open>False\<close> and \<open>run\<close> goes back to \<open>accept\<close>,
  which this time raises an \<open>OSError\<close> other than a timeout. \<open>initialize\<close> would
  pass over it; the accept loop of \<open>run\<close> does not catch it, and the node's thread
  ends although \<open>stop()\<close> was never called.
\<close>

theorem server_run_ends_without_stop:
  "tcp_run (be16_config True True) 4 (tcp_init [Established [Eof], OsError] None) = Raise OSError"
  by (simp add: tcp_run_def tcp_initialize_def be16_config_def be16_config_to_def tcp_init_def
      is_set_def next_attempt_def numeral_eq_Suc tcp_get_next_item_def recv_def settimeout_def
      new_socket_def connect_to_def close_sock_def recover_def sock_timeout_def)

text \<open>
  What holds of the send path: with no socket the item is dropped, no exception is
  raised and the node stays as it was; with a connected socket the item is handed to
  \<open>send\<close>, which takes all of it, or the first bytes of it, or raises, and an
  exception of \<open>send\<close> reaches the publisher.
\<close>

lemma tcp_notify_without_socket:
  "sock s = None \<Longrightarrow> tcp_notify s publisher item = Return s"
  by (simp add: tcp_notify_def)

lemma tcp_notify_connected:
  "sock s = Some k \<Longrightarrow> is_connected k \<Longrightarrow>
   tcp_notify s publisher item =
     (case tx k of
        [] \<Rightarrow> Return (s\<lparr>sock := Some (k\<lparr>sent := sent k @ item\<rparr>)\<rparr>)
      | Takes n # later \<Rightarrow> Return (s\<lparr>sock := Some (k\<lparr>sent := sent k @ take n item, tx := later\<rparr>)\<rparr>)
      | Breaks # later \<Rightarrow> Raise ConnectionErrorExc
      | Stalls # later \<Rightarrow> Raise SocketTimeoutExc)"
  by (simp add: tcp_notify_def send_def split: list.splits tx_event.splits)

text \<open>
  C8 (the code departs from the claim). A client node is started while nothing
  listens at its address: \<open>initialize\<close> makes the socket, two \<open>connect\<close> calls fail,
  and \<open>stop()\<close> ends the loop. The node holds no connection, but \<open>self.sock\<close> is the
  socket that never connected, not \<open>None\<close>. A publisher's \<open>notify\<close> passes the guard
  and calls \<open>send\<close> on it, and the \<open>OSError\<close> that \<open>send\<close> raises reaches the publisher.
\<close>

theorem client_notify_before_connection_raises:
  "tcp_initialize (be16_config False True) 3 (tcp_init [OsError, TimedOut] (Some 2))
     = Return
         \<lparr>sock = Some \<lparr>is_connected = False, rx = [], timeout = Some sock_timeout, sent = [], tx = []\<rparr>,
          server_sock = None, stopped = Some 0, delivered = [], net = []\<rparr>
   \<and> tcp_notify
         \<lparr>sock = Some \<lparr>is_connected = False, rx = [], timeout = Some sock_timeout, sent = [], tx = []\<rparr>,
          server_sock = None, stopped = Some 0, delivered = [], net = []\<rparr> 5 [1, 2]
     = Raise OSError"
  by (simp add: tcp_initialize_def be16_config_def be16_config_to_def tcp_init_def is_set_def
      next_attempt_def numeral_eq_Suc settimeout_def new_socket_def tcp_notify_def send_def)

end
